theory Spec2Isabelle
  imports Complex_Main "HOL-Library.Product_Lexorder"
begin

section \<open>Data model of backend/main.py\<close>

text \<open>
  Calendar dates (\<open>datetime.date\<close>) are modelled by their proleptic Gregorian day number
  (\<open>date.toordinal()\<close>): \<open>(a - b).days\<close> is \<open>a - b\<close> and \<open>d + timedelta(days=n)\<close> is
  \<open>d + n\<close>. The range limit of \<open>datetime.date\<close> (years 1 to 9999) is not modelled.
  Strings are lists of \<open>char\<close>; each \<open>char\<close> stands for the Python code point of the same
  number, so the model covers text whose code points are below 256.
\<close>

type_synonym date = int

datatype SprintStatus = SPRINT_ACTIVE | SPRINT_CLOSED

datatype TaskStatus = TODO | IN_PROGRESS | CODE_REVIEW | DONE

datatype UserStoryStatus = PLANNED | STORY_ACTIVE | STORY_DONE

text \<open>The tables. Field names carry the table's initials, since two records cannot
  share a field name: \<open>sp\<close> sprints, \<open>us\<close> user\_stories, \<open>tk\<close> tasks,
  \<open>gl\<close> github\_links, \<open>bs\<close> burndown\_snapshots.\<close>

record SprintModel =
  sp_id :: int
  sp_name :: string
  sp_goal :: "string option"
  sp_start_date :: date
  sp_end_date :: date
  sp_status :: SprintStatus

record UserStoryModel =
  us_id :: int
  us_sprint_id :: "int option"
  us_title :: string
  us_description :: "string option"
  us_story_points :: int
  us_priority :: int
  us_is_tech_debt :: bool
  us_status :: UserStoryStatus

record TaskModel =
  tk_id :: int
  tk_story_id :: int
  tk_title :: string
  tk_status :: TaskStatus
  tk_story_points :: int
  tk_is_tech_debt :: bool
  tk_assignee :: "string option"

record GitHubLinkModel =
  gl_id :: int
  gl_task_id :: int
  gl_commit_hash :: "string option"
  gl_pr_url :: "string option"
  gl_repo_name :: "string option"

record BurndownSnapshotModel =
  bs_id :: int
  bs_sprint_id :: int
  bs_snapshot_date :: date
  bs_remaining_points :: int

text \<open>The committed database: each table is the list of its rows in storage order, and
  each \<open>next_*_id\<close> is the table's AUTO\_INCREMENT counter, the primary key the next
  inserted row receives.\<close>

record db =
  sprints :: "SprintModel list"
  user_stories :: "UserStoryModel list"
  tasks :: "TaskModel list"
  github_links :: "GitHubLinkModel list"
  burndown_snapshots :: "BurndownSnapshotModel list"
  next_story_id :: int
  next_task_id :: int
  next_link_id :: int
  next_snapshot_id :: int

text \<open>The process: the database and the global \<open>SIMULATION_OFFSET_DAYS\<close>.\<close>

record process =
  database :: db
  SIMULATION_OFFSET_DAYS :: int

datatype error = HTTPException nat string

section \<open>Status rollup\<close>

text \<open>\<open>sync_story_status(db, story)\<close>: the argument \<open>ts\<close> is \<open>story.tasks\<close>, the result is
  the story object after the call. The source does not use \<open>db\<close>.\<close>

definition sync_story_status :: "TaskModel list \<Rightarrow> UserStoryModel \<Rightarrow> UserStoryModel" where
  "sync_story_status ts story =
     (if ts = [] then story
      else if list_all (\<lambda>task. tk_status task = DONE) ts
        then story\<lparr>us_status := STORY_DONE\<rparr>
      else if list_ex (\<lambda>task. tk_status task = IN_PROGRESS \<or> tk_status task = CODE_REVIEW) ts
        then story\<lparr>us_status := STORY_ACTIVE\<rparr>
      else story\<lparr>us_status := PLANNED\<rparr>)"

text \<open>The relationship \<open>story.tasks\<close>: the task rows whose foreign key is the story.\<close>

definition story_tasks :: "db \<Rightarrow> int \<Rightarrow> TaskModel list" where
  "story_tasks d sid = filter (\<lambda>t. tk_story_id t = sid) (tasks d)"

text \<open>\<open>sync_story_status\<close> on the story row with primary key \<open>sid\<close>, followed by the commit
  that every caller issues.\<close>

definition sync_story :: "db \<Rightarrow> int \<Rightarrow> db" where
  "sync_story d sid =
     d\<lparr>user_stories :=
         map (\<lambda>s. if us_id s = sid then sync_story_status (story_tasks d sid) s else s)
           (user_stories d)\<rparr>"

section \<open>Clock\<close>

text \<open>\<open>get_today()\<close>: \<open>today\<close> is what \<open>date.today()\<close> returns, an input from the
  environment.\<close>

definition get_today :: "date \<Rightarrow> process \<Rightarrow> date" where
  "get_today today p = today + SIMULATION_OFFSET_DAYS p"

section \<open>Burndown\<close>

text \<open>The relationship \<open>sprint.stories\<close>.\<close>

definition sprint_stories :: "db \<Rightarrow> int \<Rightarrow> UserStoryModel list" where
  "sprint_stories d sprint_id = filter (\<lambda>s. us_sprint_id s = Some sprint_id) (user_stories d)"

definition calculate_remaining_points :: "db \<Rightarrow> int \<Rightarrow> int" where
  "calculate_remaining_points d sprint_id =
     sum_list (map us_story_points
       (filter (\<lambda>s. us_sprint_id s = Some sprint_id \<and> us_status s \<noteq> STORY_DONE)
          (user_stories d)))"

text \<open>\<open>BurndownPoint\<close>. The two \<open>float\<close> fields are modelled by exact real numbers: the
  rounding of floating-point division is not modelled.\<close>

record BurndownPoint =
  day :: string
  ideal :: real
  actual :: real

text \<open>Python's \<open>str\<close> of an integer, used by the f-string of the day label.\<close>

function str_nat :: "nat \<Rightarrow> string" where
  "str_nat n =
     (if n < 10 then [''0123456789'' ! n]
      else str_nat (n div 10) @ [''0123456789'' ! (n mod 10)])"
  by pat_completeness auto
termination
  by (relation "measure (\<lambda>n. n)") auto

definition str_int :: "int \<Rightarrow> string" where
  "str_int i = (if i < 0 then CHR ''-'' # str_nat (nat (- i)) else str_nat (nat i))"

text \<open>The dict comprehension \<open>{snap.snapshot_date: snap.remaining_points for snap in snapshots}\<close>:
  a later row replaces an earlier one of the same date.\<close>

definition snapshot_map :: "BurndownSnapshotModel list \<Rightarrow> (date \<rightharpoonup> int)" where
  "snapshot_map snapshots =
     fold (\<lambda>snap m. m(bs_snapshot_date snap \<mapsto> bs_remaining_points snap)) snapshots Map.empty"

text \<open>The body of \<open>for index in range(total_days)\<close>, over the indices still to visit, with
  the loop variables \<open>current_day\<close> and \<open>last_actual\<close>; the result is the list of points
  appended.\<close>

fun burndown_loop ::
  "(date \<rightharpoonup> int) \<Rightarrow> int \<Rightarrow> int \<Rightarrow> nat list \<Rightarrow> date \<Rightarrow> int \<Rightarrow> BurndownPoint list" where
  "burndown_loop m total_points total_days [] current_day last_actual = []"
| "burndown_loop m total_points total_days (index # rest) current_day last_actual =
     (let ideal_remaining =
            of_int total_points
              - of_int (int index * total_points) / of_int (max (total_days - 1) 1);
          last_actual' = (case m current_day of Some v \<Rightarrow> v | None \<Rightarrow> last_actual)
      in \<lparr>day = ''Day '' @ str_int (int index + 1),
          ideal = max ideal_remaining 0,
          actual = of_int (max last_actual' 0)\<rparr>
         # burndown_loop m total_points total_days rest (current_day + 1) last_actual')"

text \<open>\<open>build_burndown_payload(db, sprint)\<close>. The guard
  \<open>if not sprint.start_date or not sprint.end_date\<close> never fires: both columns are
  \<open>nullable=False\<close> and every \<open>date\<close> object is true, so the model has no branch for it.
  \<open>order_by(snapshot_date)\<close> is a stable sort of the rows in storage order.\<close>

definition build_burndown_payload :: "db \<Rightarrow> SprintModel \<Rightarrow> BurndownPoint list" where
  "build_burndown_payload d sprint =
     (let total_days = max (sp_end_date sprint - sp_start_date sprint + 1) 1;
          total_points = max (sum_list (map us_story_points (sprint_stories d (sp_id sprint)))) 0;
          snapshots = sort_key bs_snapshot_date
                        (filter (\<lambda>b. bs_sprint_id b = sp_id sprint) (burndown_snapshots d));
          burndown_points =
            burndown_loop (snapshot_map snapshots) total_points total_days
              [0 ..< nat total_days] (sp_start_date sprint) total_points
      in if burndown_points \<noteq> [] \<and> snapshots = []
         then burndown_points[length burndown_points - 1 :=
                (last burndown_points)\<lparr>actual := of_int (calculate_remaining_points d (sp_id sprint))\<rparr>]
         else burndown_points)"

section \<open>Snapshot capture\<close>

text \<open>The loop \<open>for sprint in active_sprints\<close> of \<open>capture_burndown_snapshots\<close>. \<open>rows\<close> are
  the snapshot rows as the session holds them, \<open>pending\<close> the objects passed to \<open>db.add\<close>
  (sprint id and remaining points), which the session (\<open>autoflush=False\<close>) does not show to a
  later query before the commit. \<open>.first()\<close> is the first matching row in storage order.\<close>

fun update_first :: "('a \<Rightarrow> bool) \<Rightarrow> ('a \<Rightarrow> 'a) \<Rightarrow> 'a list \<Rightarrow> 'a list" where
  "update_first P f [] = []"
| "update_first P f (x # xs) = (if P x then f x # xs else x # update_first P f xs)"

fun capture_loop ::
  "db \<Rightarrow> date \<Rightarrow> SprintModel list \<Rightarrow> BurndownSnapshotModel list \<Rightarrow> (int \<times> int) list
     \<Rightarrow> BurndownSnapshotModel list \<times> (int \<times> int) list" where
  "capture_loop d target_date [] rows pending = (rows, pending)"
| "capture_loop d target_date (sprint # rest) rows pending =
     (let remaining = calculate_remaining_points d (sp_id sprint);
          hit = (\<lambda>b. bs_sprint_id b = sp_id sprint \<and> bs_snapshot_date b = target_date)
      in case find hit rows of
           Some snapshot \<Rightarrow>
             capture_loop d target_date rest
               (update_first hit (\<lambda>b. b\<lparr>bs_remaining_points := remaining\<rparr>) rows) pending
         | None \<Rightarrow>
             capture_loop d target_date rest rows (pending @ [(sp_id sprint, remaining)]))"

text \<open>The INSERTs of the commit: the pending rows receive consecutive primary keys.\<close>

fun insert_snapshots :: "int \<Rightarrow> date \<Rightarrow> (int \<times> int) list \<Rightarrow> BurndownSnapshotModel list" where
  "insert_snapshots n target_date [] = []"
| "insert_snapshots n target_date ((sprint_id, remaining) # ps) =
     \<lparr>bs_id = n, bs_sprint_id = sprint_id, bs_snapshot_date = target_date,
      bs_remaining_points = remaining\<rparr> # insert_snapshots (n + 1) target_date ps"

definition capture_db :: "date \<Rightarrow> db \<Rightarrow> db" where
  "capture_db target_date d =
     (let active_sprints = filter (\<lambda>s. sp_status s = SPRINT_ACTIVE) (sprints d);
          (rows, pending) = capture_loop d target_date active_sprints (burndown_snapshots d) []
      in d\<lparr>burndown_snapshots := rows @ insert_snapshots (next_snapshot_id d) target_date pending,
           next_snapshot_id := next_snapshot_id d + int (length pending)\<rparr>)"

text \<open>\<open>capture_burndown_snapshots(for_date)\<close>. The function has no \<open>return\<close> statement: the
  first component is the value the call evaluates to, \<open>None\<close> for Python's \<open>None\<close>.
  No operation of the model raises, so the \<open>except\<close> branch (log and roll back) has no
  counterpart.\<close>

definition capture_burndown_snapshots ::
  "date option \<Rightarrow> date \<Rightarrow> process \<Rightarrow> int option \<times> process" where
  "capture_burndown_snapshots for_date today p =
     (let target_date = (case for_date of Some dt \<Rightarrow> dt | None \<Rightarrow> get_today today p)
      in (None, p\<lparr>database := capture_db target_date (database p)\<rparr>))"

section \<open>Simulation\<close>

text \<open>The query \<open>filter(status == ACTIVE).order_by(start_date).first()\<close>, shared by
  \<open>get_active_sprint\<close>, \<open>simulate_progress\<close> and \<open>simulate_set_remaining_days\<close>.
  \<open>order_by\<close> is a stable sort of the rows in storage order.\<close>

definition first_active_sprint :: "db \<Rightarrow> SprintModel option" where
  "first_active_sprint d =
     (case sort_key sp_start_date (filter (\<lambda>s. sp_status s = SPRINT_ACTIVE) (sprints d)) of
        [] \<Rightarrow> None
      | sprint # _ \<Rightarrow> Some sprint)"

text \<open>The rows of the join of tasks and stories that \<open>pick_task\<close> filters: tasks of the
  given status whose story belongs to the sprint.\<close>

definition sprint_tasks :: "db \<Rightarrow> SprintModel \<Rightarrow> TaskStatus \<Rightarrow> TaskModel list" where
  "sprint_tasks d sprint status =
     filter (\<lambda>t. tk_status t = status \<and>
                 list_ex (\<lambda>s. us_id s = tk_story_id t \<and> us_sprint_id s = Some (sp_id sprint))
                   (user_stories d))
       (tasks d)"

text \<open>\<open>order_by(is_tech_debt.desc(), id).first()\<close>: the sort key puts \<open>False\<close> before
  \<open>True\<close>, so the key of a task is whether it is \<^emph>\<open>not\<close> tech debt, then its id.\<close>

definition pick_task :: "db \<Rightarrow> SprintModel \<Rightarrow> TaskStatus \<Rightarrow> TaskModel option" where
  "pick_task d sprint status =
     (case sort_key (\<lambda>t. (\<not> tk_is_tech_debt t, tk_id t)) (sprint_tasks d sprint status) of
        [] \<Rightarrow> None
      | task # _ \<Rightarrow> Some task)"

definition tech_debt_story_title :: string where
  "tech_debt_story_title = ''Tech Debt Fixes''"

text \<open>The two generated texts are Chinese; they are kept as their UTF-8 bytes.\<close>

definition tech_debt_story_description :: string where
  "tech_debt_story_description =
     map char_of
       [0x2D, 0x20, 0xE8, 0x87, 0xAA, 0xE5, 0x8A, 0xA8, 0xE7, 0x94, 0x9F, 0xE6, 0x88, 0x90, 0xE7,
        0x9A, 0x84, 0xE6, 0x8A, 0x80, 0xE6, 0x9C, 0xAF, 0xE5, 0x80, 0xBA, 0xE5, 0x8A, 0xA1, 0xE6,
        0x95, 0x85, 0xE4, 0xBA, 0x8B, 0x0A, 0x2D, 0x20, 0xE6, 0xB8, 0x85, 0xE7, 0x90, 0x86, 0xE5,
        0x91, 0x8A, 0xE8, 0xAD, 0xA6, 0xE4, 0xB8, 0x8E, 0xE4, 0xBB, 0xA3, 0xE7, 0xA0, 0x81, 0xE5,
        0xBC, 0x82, 0xE5, 0x91, 0xB3 :: nat]"

definition tech_debt_task_title :: string where
  "tech_debt_task_title =
     map char_of
       [0xE5, 0xA4, 0x84, 0xE7, 0x90, 0x86, 0xE6, 0x8A, 0x80, 0xE6, 0x9C, 0xAF, 0xE5, 0x80, 0xBA,
        0xE5, 0x8A, 0xA1, 0xE9, 0xA1, 0xB9 :: nat]"

text \<open>\<open>ensure_tech_debt_task()\<close>: returns the new task and the database with it (and with
  the new story, if one was made). The story's \<open>status\<close> is the column default.\<close>

definition ensure_tech_debt_task :: "db \<Rightarrow> SprintModel \<Rightarrow> TaskModel \<times> db" where
  "ensure_tech_debt_task d sprint =
     (let (story, d1) =
            (case sort_key (\<lambda>s. (us_priority s, us_id s)) (sprint_stories d (sp_id sprint)) of
               story # _ \<Rightarrow> (story, d)
             | [] \<Rightarrow>
                 (let story = \<lparr>us_id = next_story_id d, us_sprint_id = Some (sp_id sprint),
                               us_title = tech_debt_story_title,
                               us_description = Some tech_debt_story_description,
                               us_story_points = 5, us_priority = 1, us_is_tech_debt = True,
                               us_status = PLANNED\<rparr>
                  in (story, d\<lparr>user_stories := user_stories d @ [story],
                                next_story_id := next_story_id d + 1\<rparr>)));
          task = \<lparr>tk_id = next_task_id d1, tk_story_id = us_id story,
                  tk_title = tech_debt_task_title, tk_status = TODO, tk_story_points = 2,
                  tk_is_tech_debt = True, tk_assignee = None\<rparr>
      in (task, d1\<lparr>tasks := tasks d1 @ [task], next_task_id := next_task_id d1 + 1\<rparr>))"

text \<open>Assignment to \<open>task.status\<close> of the task row with the given primary key.\<close>

definition set_task_status :: "db \<Rightarrow> int \<Rightarrow> TaskStatus \<Rightarrow> db" where
  "set_task_status d task_id status =
     d\<lparr>tasks := map (\<lambda>t. if tk_id t = task_id then t\<lparr>tk_status := status\<rparr> else t) (tasks d)\<rparr>"

text \<open>The relationship \<open>task.story\<close>.\<close>

definition task_story :: "db \<Rightarrow> TaskModel \<Rightarrow> UserStoryModel option" where
  "task_story d task = find (\<lambda>s. us_id s = tk_story_id task) (user_stories d)"

text \<open>The three lines shared by the first three branches of \<open>simulate_progress\<close>:
  \<open>task.status = status; if task.story: sync_story_status(db, task.story)\<close>.\<close>

definition advance_task :: "db \<Rightarrow> TaskModel \<Rightarrow> TaskStatus \<Rightarrow> db" where
  "advance_task d task status =
     (let d1 = set_task_status d (tk_id task) status
      in case task_story d1 task of
           Some story \<Rightarrow> sync_story d1 (us_id story)
         | None \<Rightarrow> d1)"

definition simulate_progress :: "db \<Rightarrow> db" where
  "simulate_progress d =
     (case first_active_sprint d of
        None \<Rightarrow> d
      | Some sprint \<Rightarrow>
          (let code_review_task = pick_task d sprint CODE_REVIEW;
               in_progress_task = pick_task d sprint IN_PROGRESS;
               todo_task = pick_task d sprint TODO
           in case code_review_task of
                Some task \<Rightarrow> advance_task d task DONE
              | None \<Rightarrow>
                  (case in_progress_task of
                     Some task \<Rightarrow> advance_task d task CODE_REVIEW
                   | None \<Rightarrow>
                       (case todo_task of
                          Some task \<Rightarrow> advance_task d task IN_PROGRESS
                        | None \<Rightarrow> snd (ensure_tech_debt_task d sprint)))))"

text \<open>The JSON object \<open>simulate_set_remaining_days\<close> returns.\<close>

record RemainingDaysResponse =
  current_day :: date
  offset_days :: int
  remaining_days :: int

definition simulate_set_remaining_days ::
  "int \<Rightarrow> date \<Rightarrow> process \<Rightarrow> error + RemainingDaysResponse \<times> process" where
  "simulate_set_remaining_days remaining today p =
     (if remaining < 0 then Inl (HTTPException 400 ''Remaining days must be non-negative'')
      else case first_active_sprint (database p) of
        None \<Rightarrow> Inl (HTTPException 404 ''No active sprint found'')
      | Some sprint \<Rightarrow>
          (let base_remaining = sp_end_date sprint - today;
               p1 = p\<lparr>SIMULATION_OFFSET_DAYS := base_remaining - remaining\<rparr>;
               snapshot_date = get_today today p1;
               p2 = snd (capture_burndown_snapshots (Some snapshot_date) today p1)
           in Inr (\<lparr>current_day = snapshot_date,
                     offset_days = SIMULATION_OFFSET_DAYS p2,
                     remaining_days = remaining\<rparr>, p2)))"

section \<open>Task references in text\<close>

text \<open>\<open>commit_ref_pattern = re.compile(r"ref\s+#(\d+)", re.IGNORECASE)\<close>.
  \<open>is_space\<close> is \<open>\s\<close> and \<open>is_digit\<close> is \<open>\d\<close> on the code points below 256.\<close>

definition is_space :: "char \<Rightarrow> bool" where
  "is_space c \<longleftrightarrow>
     c \<in> set (map char_of [0x09, 0x0A, 0x0B, 0x0C, 0x0D, 0x1C, 0x1D, 0x1E, 0x1F, 0x20, 0x85, 0xA0 :: nat])"

definition is_digit :: "char \<Rightarrow> bool" where
  "is_digit c \<longleftrightarrow> c \<in> set ''0123456789''"

text \<open>A match of the pattern at the start of the text: the group \<open>(\d+)\<close> and the text after
  the match. \<open>\s+\<close> and \<open>\d+\<close> are greedy; giving back a character never helps, since the
  character after \<open>\s+\<close> must be \<open>#\<close> and \<open>\d+\<close> ends the pattern.\<close>

definition match_ref :: "string \<Rightarrow> (string \<times> string) option" where
  "match_ref text =
     (case text of
        r # e # f # w # cs \<Rightarrow>
          if (r = CHR ''r'' \<or> r = CHR ''R'') \<and> (e = CHR ''e'' \<or> e = CHR ''E'')
               \<and> (f = CHR ''f'' \<or> f = CHR ''F'') \<and> is_space w
          then (case dropWhile is_space cs of
                  h # ds \<Rightarrow>
                    if h = CHR ''#'' \<and> takeWhile is_digit ds \<noteq> []
                    then Some (takeWhile is_digit ds, dropWhile is_digit ds)
                    else None
                | [] \<Rightarrow> None)
          else None
      | _ \<Rightarrow> None)"

text \<open>\<open>commit_ref_pattern.findall(text)\<close>: the groups of the successive non-overlapping
  matches, found from left to right.\<close>

function findall :: "string \<Rightarrow> string list" where
  "findall [] = []"
| "findall (c # cs) =
     (case match_ref (c # cs) of
        Some (g, rest) \<Rightarrow> g # findall rest
      | None \<Rightarrow> findall cs)"
  by pat_completeness auto
termination
proof (relation "measure length", goal_cases)
  case 1
  show ?case by simp
next
  case (2 c cs)
  show ?case by simp
next
  case (3 c cs x2 g rest)
  have drop_le: "length (dropWhile P xs) \<le> length xs" for P :: "char \<Rightarrow> bool" and xs
    by (induction xs) simp_all
  from 3 obtain r e f w ws h ds where
    shape: "c # cs = r # e # f # w # ws" "dropWhile is_space ws = h # ds"
      "rest = dropWhile is_digit ds"
    by (auto simp: match_ref_def split: list.splits if_splits)
  have "length rest \<le> length ds"
    using shape(3) drop_le[of is_digit ds] by simp
  moreover have "length (h # ds) \<le> length ws"
    using shape(2) drop_le[of is_space ws] by simp
  ultimately have "length rest < length (c # cs)"
    using shape(1) by simp
  then show ?case by simp
qed

text \<open>Python's \<open>int\<close> of a string of decimal digits.\<close>

definition digit_value :: "char \<Rightarrow> int" where
  "digit_value c = int (of_char c) - 48"

definition int_of_digits :: "string \<Rightarrow> int" where
  "int_of_digits ds = foldl (\<lambda>n c. 10 * n + digit_value c) 0 ds"

section \<open>GitHub webhook\<close>

text \<open>The webhook payload, after the \<open>.get\<close> calls of the handler: a missing
  \<open>message\<close>, \<open>title\<close> or \<open>body\<close> is the empty string, a missing or empty
  \<open>pull_request\<close> is \<open>None\<close>.\<close>

record Commit =
  cm_id :: "string option"
  cm_message :: string

record PullRequest =
  pr_title :: string
  pr_body :: string
  pr_html_url :: "string option"

record Payload =
  repository_full_name :: "string option"
  commits :: "Commit list"
  pull_request :: "PullRequest option"

text \<open>\<open>db.get(TaskModel, task_id)\<close>.\<close>

definition get_task :: "db \<Rightarrow> int \<Rightarrow> TaskModel option" where
  "get_task d task_id = find (\<lambda>t. tk_id t = task_id) (tasks d)"

text \<open>\<open>db.add(link)\<close>: the row is inserted by the commit at the end of the handler; no
  query of the handler reads the table before, so the row is appended at once.\<close>

definition add_link :: "db \<Rightarrow> int \<Rightarrow> string option \<Rightarrow> string option \<Rightarrow> string option \<Rightarrow> db" where
  "add_link d task_id commit_hash pr_url repo_name =
     d\<lparr>github_links := github_links d @
          [\<lparr>gl_id = next_link_id d, gl_task_id = task_id, gl_commit_hash = commit_hash,
            gl_pr_url = pr_url, gl_repo_name = repo_name\<rparr>],
       next_link_id := next_link_id d + 1\<rparr>"

definition link_commit_to_task :: "db \<Rightarrow> TaskModel \<Rightarrow> string option \<Rightarrow> string option \<Rightarrow> db" where
  "link_commit_to_task d task commit_hash repo_name =
     add_link d (tk_id task) commit_hash None repo_name"

definition link_pr_to_task :: "db \<Rightarrow> TaskModel \<Rightarrow> string option \<Rightarrow> string option \<Rightarrow> db" where
  "link_pr_to_task d task pr_url repo_name =
     add_link (set_task_status d (tk_id task) CODE_REVIEW) (tk_id task) None pr_url repo_name"

text \<open>The inner loops \<open>for match in commit_ref_pattern.findall(...)\<close>; the state is the
  database and \<open>processed_tasks\<close>.\<close>

fun commit_matches ::
  "string option \<Rightarrow> string option \<Rightarrow> string list \<Rightarrow> db \<times> int list \<Rightarrow> db \<times> int list" where
  "commit_matches repo_name commit_id [] (d, processed_tasks) = (d, processed_tasks)"
| "commit_matches repo_name commit_id (match # rest) (d, processed_tasks) =
     (case get_task d (int_of_digits match) of
        Some task \<Rightarrow>
          commit_matches repo_name commit_id rest
            (link_commit_to_task d task commit_id repo_name, processed_tasks @ [tk_id task])
      | None \<Rightarrow> commit_matches repo_name commit_id rest (d, processed_tasks))"

fun pr_matches ::
  "string option \<Rightarrow> string option \<Rightarrow> string list \<Rightarrow> db \<times> int list \<Rightarrow> db \<times> int list" where
  "pr_matches repo_name pr_url [] (d, processed_tasks) = (d, processed_tasks)"
| "pr_matches repo_name pr_url (match # rest) (d, processed_tasks) =
     (case get_task d (int_of_digits match) of
        Some task \<Rightarrow>
          pr_matches repo_name pr_url rest
            (link_pr_to_task d task pr_url repo_name, processed_tasks @ [tk_id task])
      | None \<Rightarrow> pr_matches repo_name pr_url rest (d, processed_tasks))"

text \<open>The outer loop \<open>for commit in payload.get("commits", [])\<close>.\<close>

fun commits_loop :: "string option \<Rightarrow> Commit list \<Rightarrow> db \<times> int list \<Rightarrow> db \<times> int list" where
  "commits_loop repo_name [] st = st"
| "commits_loop repo_name (commit # rest) st =
     commits_loop repo_name rest
       (commit_matches repo_name (cm_id commit) (findall (cm_message commit)) st)"

text \<open>\<open>github_webhook(payload)\<close>: the list \<open>linked_tasks\<close> of the response, and the
  database after the commit.\<close>

definition github_webhook :: "Payload \<Rightarrow> db \<Rightarrow> int list \<times> db" where
  "github_webhook payload d =
     (let repo_name = repository_full_name payload;
          st = commits_loop repo_name (commits payload) (d, []);
          (d', processed_tasks) =
            (case pull_request payload of
               Some pr \<Rightarrow>
                 pr_matches repo_name (pr_html_url pr)
                   (findall (pr_title pr @ [CHR 0x0A] @ pr_body pr)) st
             | None \<Rightarrow> st)
      in (processed_tasks, d'))"

section \<open>Task endpoints\<close>

text \<open>\<open>TaskCreate\<close>, and \<open>TaskUpdate\<close> after \<open>payload.dict(exclude_unset=True)\<close>: a field
  that the request does not set is \<open>None\<close>.\<close>

record TaskCreate =
  tc_title :: string
  tc_story_id :: int
  tc_story_points :: int
  tc_status :: TaskStatus
  tc_is_tech_debt :: bool
  tc_assignee :: "string option"

record TaskUpdate =
  tu_title :: "string option"
  tu_status :: "TaskStatus option"
  tu_story_points :: "int option"
  tu_is_tech_debt :: "bool option"
  tu_assignee :: "string option option"

definition create_task :: "TaskCreate \<Rightarrow> db \<Rightarrow> error + TaskModel \<times> db" where
  "create_task payload d =
     (case find (\<lambda>s. us_id s = tc_story_id payload) (user_stories d) of
        None \<Rightarrow> Inl (HTTPException 404 ''Story not found'')
      | Some story \<Rightarrow>
          (let task = \<lparr>tk_id = next_task_id d, tk_story_id = tc_story_id payload,
                       tk_title = tc_title payload, tk_status = tc_status payload,
                       tk_story_points = tc_story_points payload,
                       tk_is_tech_debt = tc_is_tech_debt payload,
                       tk_assignee = tc_assignee payload\<rparr>;
               d1 = d\<lparr>tasks := tasks d @ [task], next_task_id := next_task_id d + 1\<rparr>
           in Inr (task, sync_story d1 (us_id story))))"

text \<open>The loop \<open>for key, value in update_data.items(): setattr(task, key, value)\<close>.\<close>

definition apply_task_update :: "TaskUpdate \<Rightarrow> TaskModel \<Rightarrow> TaskModel" where
  "apply_task_update payload task =
     task\<lparr>tk_title := (case tu_title payload of Some v \<Rightarrow> v | None \<Rightarrow> tk_title task),
          tk_status := (case tu_status payload of Some v \<Rightarrow> v | None \<Rightarrow> tk_status task),
          tk_story_points :=
            (case tu_story_points payload of Some v \<Rightarrow> v | None \<Rightarrow> tk_story_points task),
          tk_is_tech_debt :=
            (case tu_is_tech_debt payload of Some v \<Rightarrow> v | None \<Rightarrow> tk_is_tech_debt task),
          tk_assignee := (case tu_assignee payload of Some v \<Rightarrow> v | None \<Rightarrow> tk_assignee task)\<rparr>"

definition update_task :: "int \<Rightarrow> TaskUpdate \<Rightarrow> db \<Rightarrow> error + TaskModel \<times> db" where
  "update_task task_id payload d =
     (case get_task d task_id of
        None \<Rightarrow> Inl (HTTPException 404 ''Task not found'')
      | Some task \<Rightarrow>
          (let task' = apply_task_update payload task;
               d1 = d\<lparr>tasks := map (\<lambda>t. if tk_id t = task_id then apply_task_update payload t else t)
                                  (tasks d)\<rparr>
           in case task_story d1 task' of
                Some story \<Rightarrow> Inr (task', sync_story d1 (us_id story))
              | None \<Rightarrow> Inr (task', d1)))"

text \<open>\<open>delete_task\<close>: the ORM cascade deletes the links of the task with it.\<close>

definition delete_task :: "int \<Rightarrow> db \<Rightarrow> error + unit \<times> db" where
  "delete_task task_id d =
     (case get_task d task_id of
        None \<Rightarrow> Inl (HTTPException 404 ''Task not found'')
      | Some task \<Rightarrow>
          (let story = task_story d task;
               d1 = d\<lparr>tasks := filter (\<lambda>t. tk_id t \<noteq> task_id) (tasks d),
                      github_links := filter (\<lambda>l. gl_task_id l \<noteq> task_id) (github_links d)\<rparr>
           in case story of
                Some s \<Rightarrow> Inr ((), sync_story d1 (us_id s))
              | None \<Rightarrow> Inr ((), d1)))"

section \<open>Auxiliary notions for the statements\<close>

text \<open>The local variables \<open>total_points\<close> and \<open>total_days\<close> of
  \<open>build_burndown_payload\<close>, the relationship \<open>sprint.snapshots\<close>, and the list the loop
  of \<open>build_burndown_payload\<close> produces before the last point is overwritten.\<close>

definition burndown_total_points :: "db \<Rightarrow> SprintModel \<Rightarrow> int" where
  "burndown_total_points d sprint =
     max (sum_list (map us_story_points (sprint_stories d (sp_id sprint)))) 0"

definition burndown_total_days :: "SprintModel \<Rightarrow> int" where
  "burndown_total_days sprint = max (sp_end_date sprint - sp_start_date sprint + 1) 1"

definition sprint_snapshots :: "db \<Rightarrow> int \<Rightarrow> BurndownSnapshotModel list" where
  "sprint_snapshots d sprint_id = filter (\<lambda>b. bs_sprint_id b = sprint_id) (burndown_snapshots d)"

definition burndown_series :: "db \<Rightarrow> SprintModel \<Rightarrow> BurndownPoint list" where
  "burndown_series d sprint =
     burndown_loop (snapshot_map (sort_key bs_snapshot_date (sprint_snapshots d (sp_id sprint))))
       (burndown_total_points d sprint) (burndown_total_days sprint)
       [0 ..< nat (burndown_total_days sprint)] (sp_start_date sprint)
       (burndown_total_points d sprint)"

text \<open>The value of \<open>last_actual\<close> after the loop body has run for the days
  \<open>current_day, \<dots>, current_day + k\<close>: the entry of the latest of these days that the dict
  holds, and the initial \<open>last_actual\<close> when it holds none of them.\<close>

fun carry :: "(date \<rightharpoonup> int) \<Rightarrow> date \<Rightarrow> int \<Rightarrow> nat \<Rightarrow> int" where
  "carry m cd la 0 = (case m cd of Some v \<Rightarrow> v | None \<Rightarrow> la)"
| "carry m cd la (Suc k) = (case m (cd + int (Suc k)) of Some v \<Rightarrow> v | None \<Rightarrow> carry m cd la k)"

section \<open>Example data\<close>

text \<open>A sprint of three days with one story of 5 points and one task.\<close>

definition example_sprint :: SprintModel where
  "example_sprint = \<lparr>sp_id = 1, sp_name = ''Sprint 1'', sp_goal = None, sp_start_date = 100,
     sp_end_date = 102, sp_status = SPRINT_ACTIVE\<rparr>"

definition example_story :: UserStoryModel where
  "example_story = \<lparr>us_id = 7, us_sprint_id = Some 1, us_title = ''Login'', us_description = None,
     us_story_points = 5, us_priority = 3, us_is_tech_debt = False, us_status = PLANNED\<rparr>"

definition example_task :: TaskModel where
  "example_task = \<lparr>tk_id = 1, tk_story_id = 7, tk_title = ''Login form'', tk_status = TODO,
     tk_story_points = 5, tk_is_tech_debt = False, tk_assignee = None\<rparr>"

definition example_db :: db where
  "example_db = \<lparr>sprints = [example_sprint], user_stories = [example_story],
     tasks = [example_task], github_links = [], burndown_snapshots = [],
     next_story_id = 8, next_task_id = 2, next_link_id = 1, next_snapshot_id = 1\<rparr>"

text \<open>The same sprint with a second story that is already DONE: 8 points in total, 5 of
  them remaining.\<close>

definition done_story :: UserStoryModel where
  "done_story = \<lparr>us_id = 8, us_sprint_id = Some 1, us_title = ''Logout'', us_description = None,
     us_story_points = 3, us_priority = 2, us_is_tech_debt = False, us_status = STORY_DONE\<rparr>"

definition two_story_db :: db where
  "two_story_db = example_db\<lparr>user_stories := [example_story, done_story], next_story_id := 9\<rparr>"

text \<open>The filter of the upsert query: the snapshot rows of a sprint and a date; the pair
  that must identify a row; and the ACTIVE sprints the capture loops over.\<close>

definition snapshot_hit :: "int \<Rightarrow> date \<Rightarrow> BurndownSnapshotModel \<Rightarrow> bool" where
  "snapshot_hit sprint_id target_date b \<longleftrightarrow>
     bs_sprint_id b = sprint_id \<and> bs_snapshot_date b = target_date"

text \<open>Invariants of the capture loop: the first row of a sprint and date holds the given
  value; every pending row holds the remaining points of its sprint; a sprint is served when
  its first row holds its remaining points, or it has no row yet and a pending one.\<close>

definition first_remaining :: "int \<Rightarrow> date \<Rightarrow> BurndownSnapshotModel list \<Rightarrow> int \<Rightarrow> bool" where
  "first_remaining s t rows r \<longleftrightarrow>
     (\<exists>b. find (snapshot_hit s t) rows = Some b \<and> bs_remaining_points b = r)"

definition pending_ok :: "db \<Rightarrow> (int \<times> int) list \<Rightarrow> bool" where
  "pending_ok d pending \<longleftrightarrow> (\<forall>p \<in> set pending. snd p = calculate_remaining_points d (fst p))"

definition served :: "db \<Rightarrow> date \<Rightarrow> BurndownSnapshotModel list \<Rightarrow> (int \<times> int) list \<Rightarrow> int \<Rightarrow> bool" where
  "served d t rows pending s \<longleftrightarrow>
     first_remaining s t rows (calculate_remaining_points d s) \<or>
     (find (snapshot_hit s t) rows = None \<and> s \<in> fst ` set pending)"

definition snapshot_key :: "BurndownSnapshotModel \<Rightarrow> int \<times> date" where
  "snapshot_key b = (bs_sprint_id b, bs_snapshot_date b)"

definition active_sprints :: "db \<Rightarrow> SprintModel list" where
  "active_sprints d = filter (\<lambda>s. sp_status s = SPRINT_ACTIVE) (sprints d)"

text \<open>The example database in a process whose clock has no offset.\<close>

definition example_process :: process where
  "example_process = \<lparr>database = example_db, SIMULATION_OFFSET_DAYS = 0\<rparr>"

section \<open>Status rollup: theorems\<close>

text \<open>
  C1. For a story with at least one task, \<open>sync_story_status\<close> sets the status to DONE
  exactly when every task is DONE, to ACTIVE exactly when not every task is DONE and some
  task is IN\_PROGRESS or CODE\_REVIEW, and to PLANNED otherwise, in which case every task
  that is not DONE is TODO; it changes no other field. For a story without tasks the call
  returns the story as it was.
\<close>

theorem sync_story_status_rollup:
  "(ts = [] \<longrightarrow> sync_story_status ts story = story) \<and>
   (ts \<noteq> [] \<longrightarrow>
      sync_story_status ts story = story\<lparr>us_status := us_status (sync_story_status ts story)\<rparr> \<and>
      (us_status (sync_story_status ts story) = STORY_DONE
         \<longleftrightarrow> (\<forall>t \<in> set ts. tk_status t = DONE)) \<and>
      (us_status (sync_story_status ts story) = STORY_ACTIVE
         \<longleftrightarrow> \<not> (\<forall>t \<in> set ts. tk_status t = DONE) \<and>
             (\<exists>t \<in> set ts. tk_status t = IN_PROGRESS \<or> tk_status t = CODE_REVIEW)) \<and>
      (us_status (sync_story_status ts story) = PLANNED
         \<longleftrightarrow> \<not> (\<forall>t \<in> set ts. tk_status t = DONE) \<and>
             \<not> (\<exists>t \<in> set ts. tk_status t = IN_PROGRESS \<or> tk_status t = CODE_REVIEW)) \<and>
      (us_status (sync_story_status ts story) = PLANNED
         \<longrightarrow> (\<forall>t \<in> set ts. tk_status t \<noteq> DONE \<longrightarrow> tk_status t = TODO)))"
proof -
  have todo: "tk_status t = TODO"
    if "tk_status t \<noteq> DONE" "tk_status t \<noteq> IN_PROGRESS" "tk_status t \<noteq> CODE_REVIEW"
    for t :: TaskModel
    using that by (cases "tk_status t") simp_all
  show ?thesis
    unfolding sync_story_status_def list_all_iff list_ex_iff
    by (auto dest: todo)
qed

theorem sync_story_status_rollup_witness:
  "[\<lparr>tk_id = 1, tk_story_id = 7, tk_title = ''a'', tk_status = DONE, tk_story_points = 3,
      tk_is_tech_debt = False, tk_assignee = None\<rparr>,
    \<lparr>tk_id = 2, tk_story_id = 7, tk_title = ''b'', tk_status = CODE_REVIEW, tk_story_points = 2,
      tk_is_tech_debt = False, tk_assignee = None\<rparr>] \<noteq> [] \<and>
   us_status (sync_story_status
     [\<lparr>tk_id = 1, tk_story_id = 7, tk_title = ''a'', tk_status = DONE, tk_story_points = 3,
        tk_is_tech_debt = False, tk_assignee = None\<rparr>,
      \<lparr>tk_id = 2, tk_story_id = 7, tk_title = ''b'', tk_status = CODE_REVIEW, tk_story_points = 2,
        tk_is_tech_debt = False, tk_assignee = None\<rparr>]
     \<lparr>us_id = 7, us_sprint_id = Some 1, us_title = ''s'', us_description = None,
      us_story_points = 5, us_priority = 3, us_is_tech_debt = False, us_status = PLANNED\<rparr>)
   = STORY_ACTIVE"
  using sync_story_status_rollup
    [of "[\<lparr>tk_id = 1, tk_story_id = 7, tk_title = ''a'', tk_status = DONE, tk_story_points = 3,
            tk_is_tech_debt = False, tk_assignee = None\<rparr>,
          \<lparr>tk_id = 2, tk_story_id = 7, tk_title = ''b'', tk_status = CODE_REVIEW,
            tk_story_points = 2, tk_is_tech_debt = False, tk_assignee = None\<rparr>]"
        "\<lparr>us_id = 7, us_sprint_id = Some 1, us_title = ''s'', us_description = None,
          us_story_points = 5, us_priority = 3, us_is_tech_debt = False, us_status = PLANNED\<rparr>"]
  by simp

section \<open>Burndown: theorems\<close>

lemma burndown_loop_length:
  "length (burndown_loop m tp td idxs cd la) = length idxs"
  by (induction idxs arbitrary: cd la) (simp_all add: Let_def)

lemma burndown_loop_day_ideal:
  "i < length idxs \<Longrightarrow>
     day (burndown_loop m tp td idxs cd la ! i) = ''Day '' @ str_int (int (idxs ! i) + 1) \<and>
     ideal (burndown_loop m tp td idxs cd la ! i)
       = max (of_int tp - of_int (int (idxs ! i) * tp) / of_int (max (td - 1) 1)) 0"
proof (induction idxs arbitrary: cd la i)
  case Nil
  then show ?case by simp
next
  case (Cons a idxs)
  show ?case
  proof (cases i)
    case 0
    then show ?thesis by (simp add: Let_def)
  next
    case (Suc j)
    with Cons.prems have "j < length idxs" by simp
    from Cons.IH[OF this] Suc show ?thesis by (simp add: Let_def)
  qed
qed

lemma carry_shift: "carry m (cd + 1) (carry m cd la 0) j = carry m cd la (Suc j)"
proof (induction j)
  case 0
  show ?case by (simp add: ac_simps split: option.splits)
next
  case (Suc j)
  have "cd + 1 + int (Suc j) = cd + int (Suc (Suc j))" by simp
  then show ?case using Suc by (simp only: carry.simps)
qed

lemma burndown_loop_actual:
  "i < length idxs \<Longrightarrow>
     actual (burndown_loop m tp td idxs cd la ! i) = of_int (max (carry m cd la i) 0)"
proof (induction idxs arbitrary: cd la i)
  case Nil
  then show ?case by simp
next
  case (Cons a idxs)
  show ?case
  proof (cases i)
    case 0
    then show ?thesis by (simp add: Let_def)
  next
    case (Suc j)
    with Cons.prems have j: "j < length idxs" by simp
    have "actual (burndown_loop m tp td (a # idxs) cd la ! i)
        = actual (burndown_loop m tp td idxs (cd + 1) (carry m cd la 0) ! j)"
      using Suc by (simp add: Let_def)
    also have "\<dots> = of_int (max (carry m (cd + 1) (carry m cd la 0) j) 0)"
      by (rule Cons.IH[OF j])
    finally show ?thesis using Suc by (simp only: carry_shift)
  qed
qed

lemma carry_hit:
  "m (cd + int k) = Some v \<Longrightarrow> k \<le> i \<Longrightarrow> (\<forall>j. k < j \<and> j \<le> i \<longrightarrow> m (cd + int j) = None)
     \<Longrightarrow> carry m cd la i = v"
proof (induction i)
  case 0
  then show ?case by simp
next
  case (Suc i)
  show ?case
  proof (cases "k = Suc i")
    case True
    with Suc.prems(1) show ?thesis by (simp only: carry.simps option.case)
  next
    case False
    with Suc.prems have k: "k \<le> i" by simp
    from Suc.prems(3) False Suc.prems(2) have none: "m (cd + int (Suc i)) = None"
      by (metis le_neq_implies_less order_refl)
    have "carry m cd la i = v"
      using Suc.IH[OF Suc.prems(1) k] Suc.prems(3) by simp
    with none show ?thesis by (simp only: carry.simps option.case)
  qed
qed

lemma carry_miss: "(\<forall>j \<le> i. m (cd + int j) = None) \<Longrightarrow> carry m cd la i = la"
proof (induction i)
  case 0
  then show ?case by simp
next
  case (Suc i)
  from Suc.prems have none: "m (cd + int (Suc i)) = None" by blast
  from Suc have "carry m cd la i = la" by simp
  with none show ?case by (simp only: carry.simps option.case)
qed


lemma build_burndown_payload_series:
  "build_burndown_payload d sprint =
     (if sprint_snapshots d (sp_id sprint) = []
      then (burndown_series d sprint)[length (burndown_series d sprint) - 1 :=
             (last (burndown_series d sprint))
               \<lparr>actual := of_int (calculate_remaining_points d (sp_id sprint))\<rparr>]
      else burndown_series d sprint)"
proof -
  have len: "burndown_series d sprint \<noteq> []"
    by (simp add: burndown_series_def burndown_total_days_def
        flip: length_0_conv[of "burndown_loop _ _ _ _ _ _"] add: burndown_loop_length)
  have srt: "sort_key bs_snapshot_date xs = [] \<longleftrightarrow> xs = []" for xs :: "BurndownSnapshotModel list"
    by (metis length_0_conv length_sort)
  show ?thesis
    using len
    by (simp add: build_burndown_payload_def burndown_series_def burndown_total_days_def
        burndown_total_points_def sprint_snapshots_def Let_def srt)
qed

lemma burndown_series_length:
  "length (burndown_series d sprint) = nat (burndown_total_days sprint)"
  by (simp add: burndown_series_def burndown_loop_length)

lemma build_burndown_payload_length:
  "length (build_burndown_payload d sprint) = nat (burndown_total_days sprint)"
  by (simp add: build_burndown_payload_series burndown_series_length)

lemma build_burndown_payload_day_ideal:
  assumes "i < nat (burndown_total_days sprint)"
  shows "day (build_burndown_payload d sprint ! i) = ''Day '' @ str_int (int i + 1)"
    and "ideal (build_burndown_payload d sprint ! i)
       = max (of_int (burndown_total_points d sprint)
              - of_int (int i * burndown_total_points d sprint)
                / of_int (max (burndown_total_days sprint - 1) 1)) 0"
proof -
  let ?S = "burndown_series d sprint"
  have i: "i < length ?S" using assms by (simp add: burndown_series_length)
  have lst: "last ?S = ?S ! (length ?S - 1)"
    using i by (intro last_conv_nth) auto
  have same: "day (build_burndown_payload d sprint ! i) = day (?S ! i) \<and>
              ideal (build_burndown_payload d sprint ! i) = ideal (?S ! i)"
  proof (cases "sprint_snapshots d (sp_id sprint) = [] \<and> i = length ?S - 1")
    case True
    then show ?thesis using i by (simp add: build_burndown_payload_series lst)
  next
    case False
    then show ?thesis using i by (auto simp add: build_burndown_payload_series)
  qed
  have idx: "[0 ..< nat (burndown_total_days sprint)] ! i = i"
    using assms by simp
  have "day (?S ! i) = ''Day '' @ str_int (int i + 1) \<and>
        ideal (?S ! i) = max (of_int (burndown_total_points d sprint)
              - of_int (int i * burndown_total_points d sprint)
                / of_int (max (burndown_total_days sprint - 1) 1)) 0"
    unfolding burndown_series_def
    using burndown_loop_day_ideal[of i "[0 ..< nat (burndown_total_days sprint)]"] assms idx
    by simp
  with same show "day (build_burndown_payload d sprint ! i) = ''Day '' @ str_int (int i + 1)"
    and "ideal (build_burndown_payload d sprint ! i)
       = max (of_int (burndown_total_points d sprint)
              - of_int (int i * burndown_total_points d sprint)
                / of_int (max (burndown_total_days sprint - 1) 1)) 0"
    by simp_all
qed


text \<open>
  C2. For a sprint whose end date is not before its start date and whose stories have
  non-negative points, the burndown series has exactly \<open>(end - start).days + 1\<close> entries, at
  least one; entry \<open>i\<close> is labelled \<open>Day i+1\<close> and its ideal value is
  \<open>max(0, totalPoints - i * totalPoints / max(1, totalDays - 1))\<close>, where \<open>totalPoints\<close> is the
  sum of the story points of the sprint's stories; so the first ideal value is
  \<open>totalPoints\<close> and, when there is more than one day, the last one is 0.
\<close>

theorem build_burndown_payload_ideal:
  assumes dates: "sp_start_date sprint \<le> sp_end_date sprint"
      and points: "\<forall>s \<in> set (sprint_stories d (sp_id sprint)). 0 \<le> us_story_points s"
  shows "length (build_burndown_payload d sprint)
           = nat (sp_end_date sprint - sp_start_date sprint + 1) \<and>
         1 \<le> length (build_burndown_payload d sprint) \<and>
         (\<forall>i < length (build_burndown_payload d sprint).
            day (build_burndown_payload d sprint ! i) = ''Day '' @ str_int (int i + 1) \<and>
            ideal (build_burndown_payload d sprint ! i)
              = max 0 (of_int (sum_list (map us_story_points (sprint_stories d (sp_id sprint))))
                       - of_int (int i * sum_list (map us_story_points (sprint_stories d (sp_id sprint))))
                         / of_int (max 1 (sp_end_date sprint - sp_start_date sprint + 1 - 1)))) \<and>
         ideal (build_burndown_payload d sprint ! 0)
           = of_int (sum_list (map us_story_points (sprint_stories d (sp_id sprint)))) \<and>
         (1 < sp_end_date sprint - sp_start_date sprint + 1 \<longrightarrow>
            ideal (last (build_burndown_payload d sprint)) = 0)"
proof -
  let ?P = "build_burndown_payload d sprint"
  let ?tp = "sum_list (map us_story_points (sprint_stories d (sp_id sprint)))"
  let ?td = "sp_end_date sprint - sp_start_date sprint + 1"
  have td: "burndown_total_days sprint = ?td"
    using dates by (simp add: burndown_total_days_def)
  have "0 \<le> ?tp" using points by (intro sum_list_nonneg) auto
  then have tp: "burndown_total_points d sprint = ?tp"
    by (simp add: burndown_total_points_def)
  have len: "length ?P = nat ?td"
    by (simp add: build_burndown_payload_length td)
  have pos: "1 \<le> length ?P" using len dates by simp
  have each: "day (?P ! i) = ''Day '' @ str_int (int i + 1) \<and>
      ideal (?P ! i) = max 0 (of_int ?tp - of_int (int i * ?tp) / of_int (max 1 (?td - 1)))"
    if "i < length ?P" for i
    using build_burndown_payload_day_ideal[of i sprint d] that len
    by (simp add: td tp max.commute)
  have "0 < length ?P" using pos by linarith
  from each[OF this] have first: "ideal (?P ! 0) = of_int ?tp"
    using \<open>0 \<le> ?tp\<close> by simp
  have final: "ideal (last ?P) = 0" if "1 < ?td"
  proof -
    have ne: "?P \<noteq> []" using pos by (cases ?P) simp_all
    have n: "int (length ?P - 1) = ?td - 1" using len that by simp
    have "ideal (last ?P) = ideal (?P ! (length ?P - 1))"
      using ne by (simp add: last_conv_nth)
    also have "\<dots> = max 0 (of_int ?tp - of_int (int (length ?P - 1) * ?tp) / of_int (max 1 (?td - 1)))"
    proof -
      have "length ?P - 1 < length ?P" using pos by linarith
      from each[OF this] show ?thesis by simp
    qed
    also have "\<dots> = max 0 (of_int ?tp - of_int ((?td - 1) * ?tp) / of_int (?td - 1))"
      using that by (simp only: n)
    also have "\<dots> = 0"
    proof -
      have "(of_int (?td - 1) :: real) \<noteq> 0" using that by simp
      moreover have "a * b / a = b" if "a \<noteq> 0" for a b :: real
        using that by simp
      ultimately have "(of_int ((?td - 1) * ?tp) :: real) / of_int (?td - 1) = of_int ?tp"
        unfolding of_int_mult by blast
      then show ?thesis by simp
    qed
    finally show ?thesis .
  qed
  show ?thesis using len pos each first final by blast
qed


theorem build_burndown_payload_ideal_witness:
  "sp_start_date example_sprint \<le> sp_end_date example_sprint \<and>
   map us_story_points (sprint_stories example_db (sp_id example_sprint)) = [5] \<and>
   length (build_burndown_payload example_db example_sprint) = 3 \<and>
   map day (build_burndown_payload example_db example_sprint) = [''Day 1'', ''Day 2'', ''Day 3''] \<and>
   map ideal (build_burndown_payload example_db example_sprint) = [5, 5 / 2, 0] \<and>
   ideal (last (build_burndown_payload example_db example_sprint)) = 0"
proof -
  have dates: "sp_start_date example_sprint \<le> sp_end_date example_sprint"
    by (simp add: example_sprint_def)
  have points:
    "\<forall>s \<in> set (sprint_stories example_db (sp_id example_sprint)). 0 \<le> us_story_points s"
    by (simp add: sprint_stories_def example_db_def example_story_def)
  have eval: "build_burndown_payload example_db example_sprint =
    [\<lparr>day = ''Day 1'', ideal = 5, actual = 5\<rparr>, \<lparr>day = ''Day 2'', ideal = 5 / 2, actual = 5\<rparr>,
     \<lparr>day = ''Day 3'', ideal = 0, actual = 5\<rparr>]"
    by code_simp
  have stories: "map us_story_points (sprint_stories example_db (sp_id example_sprint)) = [5]"
    by code_simp
  from build_burndown_payload_ideal[OF dates points] dates stories eval
  show ?thesis by simp
qed

lemma snapshot_fold_other:
  "dt \<notin> bs_snapshot_date ` set xs \<Longrightarrow>
     fold (\<lambda>snap m. m(bs_snapshot_date snap \<mapsto> bs_remaining_points snap)) xs m0 dt = m0 dt"
  by (induction xs arbitrary: m0) simp_all

lemma snapshot_fold_dom:
  "fold (\<lambda>snap m. m(bs_snapshot_date snap \<mapsto> bs_remaining_points snap)) xs m0 dt = None
     \<longleftrightarrow> dt \<notin> bs_snapshot_date ` set xs \<and> m0 dt = None"
  by (induction xs arbitrary: m0) auto

lemma snapshot_fold_hit:
  "distinct (map bs_snapshot_date xs) \<Longrightarrow> b \<in> set xs \<Longrightarrow>
     fold (\<lambda>snap m. m(bs_snapshot_date snap \<mapsto> bs_remaining_points snap)) xs m0
       (bs_snapshot_date b) = Some (bs_remaining_points b)"
proof (induction xs arbitrary: m0)
  case Nil
  then show ?case by simp
next
  case (Cons a xs)
  let ?f = "\<lambda>snap m. m(bs_snapshot_date snap \<mapsto> bs_remaining_points snap)"
  have step: "fold ?f (a # xs) m0 = fold ?f xs (m0(bs_snapshot_date a \<mapsto> bs_remaining_points a))"
    by (simp only: fold_simps)
  show ?case
  proof (cases "b \<in> set xs")
    case True
    moreover from Cons.prems have "distinct (map bs_snapshot_date xs)" by simp
    ultimately show ?thesis unfolding step by (rule Cons.IH[rotated])
  next
    case False
    with Cons.prems have ba: "b = a" and "bs_snapshot_date a \<notin> bs_snapshot_date ` set xs"
      by auto
    from snapshot_fold_other[OF this(2)]
    have "fold ?f xs (m0(bs_snapshot_date a \<mapsto> bs_remaining_points a)) (bs_snapshot_date a)
        = (m0(bs_snapshot_date a \<mapsto> bs_remaining_points a)) (bs_snapshot_date a)" .
    also have "\<dots> = Some (bs_remaining_points a)" by (rule fun_upd_same)
    finally show ?thesis unfolding step ba .
  qed
qed

lemma snapshot_map_None:
  "snapshot_map xs dt = None \<longleftrightarrow> dt \<notin> bs_snapshot_date ` set xs"
  by (simp add: snapshot_map_def snapshot_fold_dom)

lemma snapshot_map_Some:
  "distinct (map bs_snapshot_date xs) \<Longrightarrow> b \<in> set xs \<Longrightarrow>
     snapshot_map xs (bs_snapshot_date b) = Some (bs_remaining_points b)"
  by (simp add: snapshot_map_def snapshot_fold_hit)

lemma distinct_map_insort_key:
  "distinct (map f (insort_key f x xs)) \<longleftrightarrow> f x \<notin> f ` set xs \<and> distinct (map f xs)"
  by (induction xs) (auto simp: set_insort_key)

lemma distinct_map_sort_key:
  "distinct (map f (sort_key f xs)) \<longleftrightarrow> distinct (map f xs)"
  by (induction xs) (simp_all add: distinct_map_insort_key)

lemma burndown_series_actual:
  assumes "i < length (burndown_series d sprint)"
  shows "actual (burndown_series d sprint ! i)
     = of_int (max (carry (snapshot_map (sort_key bs_snapshot_date
                           (sprint_snapshots d (sp_id sprint))))
                     (sp_start_date sprint) (burndown_total_points d sprint) i) 0)"
  using assms unfolding burndown_series_def
  by (simp add: burndown_loop_actual burndown_loop_length)


lemma sprint_snapshot_map:
  assumes uniq: "distinct (map bs_snapshot_date (sprint_snapshots d sid))"
  shows "b \<in> set (sprint_snapshots d sid) \<Longrightarrow>
           snapshot_map (sort_key bs_snapshot_date (sprint_snapshots d sid)) (bs_snapshot_date b)
             = Some (bs_remaining_points b)"
    and "snapshot_map (sort_key bs_snapshot_date (sprint_snapshots d sid)) dt = None
           \<longleftrightarrow> dt \<notin> bs_snapshot_date ` set (sprint_snapshots d sid)"
  using uniq by (simp_all add: snapshot_map_Some snapshot_map_None distinct_map_sort_key)

lemma carry_window_hit:
  assumes uniq: "distinct (map bs_snapshot_date (sprint_snapshots d sid))"
    and b: "b \<in> set (sprint_snapshots d sid)"
    and lo: "start \<le> bs_snapshot_date b" and hi: "bs_snapshot_date b \<le> start + int i"
    and latest: "\<forall>b' \<in> set (sprint_snapshots d sid).
        start \<le> bs_snapshot_date b' \<and> bs_snapshot_date b' \<le> start + int i
          \<longrightarrow> bs_snapshot_date b' \<le> bs_snapshot_date b"
  shows "carry (snapshot_map (sort_key bs_snapshot_date (sprint_snapshots d sid))) start seed i
           = bs_remaining_points b"
proof -
  let ?m = "snapshot_map (sort_key bs_snapshot_date (sprint_snapshots d sid))"
  define k where "k = nat (bs_snapshot_date b - start)"
  have k: "start + int k = bs_snapshot_date b" "k \<le> i"
    using lo hi by (simp_all add: k_def)
  have hit: "?m (start + int k) = Some (bs_remaining_points b)"
    unfolding k(1) by (rule sprint_snapshot_map(1)[OF uniq b])
  have later: "\<forall>j. k < j \<and> j \<le> i \<longrightarrow> ?m (start + int j) = None"
  proof (intro allI impI)
    fix j assume j: "k < j \<and> j \<le> i"
    show "?m (start + int j) = None"
    proof (rule ccontr)
      assume "?m (start + int j) \<noteq> None"
      then obtain b' where b': "b' \<in> set (sprint_snapshots d sid)"
          "bs_snapshot_date b' = start + int j"
        unfolding sprint_snapshot_map(2)[OF uniq] by auto
      with latest j have "start + int j \<le> bs_snapshot_date b" by auto
      with k(1) j show False by simp
    qed
  qed
  show ?thesis by (rule carry_hit[OF hit k(2) later])
qed

lemma carry_window_miss:
  assumes uniq: "distinct (map bs_snapshot_date (sprint_snapshots d sid))"
    and none: "\<forall>b \<in> set (sprint_snapshots d sid).
        \<not> (start \<le> bs_snapshot_date b \<and> bs_snapshot_date b \<le> start + int i)"
  shows "carry (snapshot_map (sort_key bs_snapshot_date (sprint_snapshots d sid))) start seed i
           = seed"
proof (rule carry_miss, intro allI impI)
  fix j assume "j \<le> i"
  then have "start + int j \<notin> bs_snapshot_date ` set (sprint_snapshots d sid)"
    using none by auto
  then show "snapshot_map (sort_key bs_snapshot_date (sprint_snapshots d sid)) (start + int j) = None"
    unfolding sprint_snapshot_map(2)[OF uniq] .
qed

text \<open>
  C3, as amended. When a sprint has at most one snapshot per date, the actual value of
  burndown entry \<open>i\<close> is the \<open>remaining_points\<close> (clamped below at 0) of the most recent
  snapshot whose date lies between the start date and the day \<open>start + i\<close>; when the sprint
  has snapshots but none in that range it is \<open>totalPoints\<close>; and when the sprint has no
  snapshot at all, every entry but the last is \<open>totalPoints\<close> and the last one is the live
  remaining-points figure.
\<close>

theorem build_burndown_payload_actual:
  assumes uniq: "distinct (map bs_snapshot_date (sprint_snapshots d (sp_id sprint)))"
  shows
    "(\<forall>i < length (build_burndown_payload d sprint).
        \<forall>b \<in> set (sprint_snapshots d (sp_id sprint)).
          sp_start_date sprint \<le> bs_snapshot_date b \<and>
          bs_snapshot_date b \<le> sp_start_date sprint + int i \<and>
          (\<forall>b' \<in> set (sprint_snapshots d (sp_id sprint)).
             sp_start_date sprint \<le> bs_snapshot_date b' \<and>
             bs_snapshot_date b' \<le> sp_start_date sprint + int i
               \<longrightarrow> bs_snapshot_date b' \<le> bs_snapshot_date b)
          \<longrightarrow> actual (build_burndown_payload d sprint ! i)
                = of_int (max 0 (bs_remaining_points b))) \<and>
     (\<forall>i < length (build_burndown_payload d sprint).
        sprint_snapshots d (sp_id sprint) \<noteq> [] \<and>
        (\<forall>b \<in> set (sprint_snapshots d (sp_id sprint)).
           \<not> (sp_start_date sprint \<le> bs_snapshot_date b \<and>
              bs_snapshot_date b \<le> sp_start_date sprint + int i))
          \<longrightarrow> actual (build_burndown_payload d sprint ! i)
                = of_int (max 0 (sum_list (map us_story_points
                                   (sprint_stories d (sp_id sprint)))))) \<and>
     (sprint_snapshots d (sp_id sprint) = [] \<longrightarrow>
        (\<forall>i < length (build_burndown_payload d sprint) - 1.
           actual (build_burndown_payload d sprint ! i)
             = of_int (max 0 (sum_list (map us_story_points
                                (sprint_stories d (sp_id sprint)))))) \<and>
        actual (last (build_burndown_payload d sprint))
          = of_int (calculate_remaining_points d (sp_id sprint)))"
proof -
  let ?P = "build_burndown_payload d sprint"
  let ?S = "burndown_series d sprint"
  let ?snaps = "sprint_snapshots d (sp_id sprint)"
  let ?tp = "max 0 (sum_list (map us_story_points (sprint_stories d (sp_id sprint))))"
  have tp: "burndown_total_points d sprint = ?tp"
    by (simp add: burndown_total_points_def max.commute)
  have tp0: "max ?tp 0 = ?tp" by simp
  have len: "length ?P = length ?S"
    by (simp add: build_burndown_payload_length burndown_series_length)
  have ne: "?S \<noteq> []"
    using burndown_series_length[of d sprint] by (auto simp: burndown_total_days_def)
  have some: "?P = ?S" if "?snaps \<noteq> []"
    using that by (simp add: build_burndown_payload_series)
  have A: "actual (?P ! i) = of_int (max 0 (bs_remaining_points b))"
    if i: "i < length ?P" and b: "b \<in> set ?snaps"
      and w: "sp_start_date sprint \<le> bs_snapshot_date b"
        "bs_snapshot_date b \<le> sp_start_date sprint + int i"
        "\<forall>b' \<in> set ?snaps. sp_start_date sprint \<le> bs_snapshot_date b' \<and>
             bs_snapshot_date b' \<le> sp_start_date sprint + int i
               \<longrightarrow> bs_snapshot_date b' \<le> bs_snapshot_date b"
    for i b
  proof -
    from b have "?snaps \<noteq> []" by auto
    then have "?P = ?S" by (rule some)
    then show ?thesis
      using i burndown_series_actual[of i d sprint]
        carry_window_hit[OF uniq b w(1) w(2) w(3), of "burndown_total_points d sprint"]
      by (simp add: max.commute)
  qed
  have B: "actual (?P ! i) = of_int ?tp"
    if i: "i < length ?P" and s: "?snaps \<noteq> []"
      and none: "\<forall>b \<in> set ?snaps. \<not> (sp_start_date sprint \<le> bs_snapshot_date b \<and>
              bs_snapshot_date b \<le> sp_start_date sprint + int i)"
    for i
    using i some[OF s] burndown_series_actual[of i d sprint]
      carry_window_miss[OF uniq none, of "burndown_total_points d sprint"] tp0
    by (simp add: tp)
  have C1: "actual (?P ! i) = of_int ?tp"
    if e: "?snaps = []" and i: "i < length ?P - 1" for i
  proof -
    have i': "i < length ?S" using i len by simp
    have none: "\<forall>b \<in> set ?snaps. \<not> (sp_start_date sprint \<le> bs_snapshot_date b \<and>
              bs_snapshot_date b \<le> sp_start_date sprint + int i)"
      using e by simp
    have "?P ! i = ?S ! i"
      using e i len by (simp add: build_burndown_payload_series)
    then show ?thesis
      using burndown_series_actual[OF i']
        carry_window_miss[OF uniq none, of "burndown_total_points d sprint"] tp0
      by (simp add: tp)
  qed
  have C2: "actual (last ?P) = of_int (calculate_remaining_points d (sp_id sprint))"
    if e: "?snaps = []"
  proof -
    have "?P = ?S[length ?S - 1 := (last ?S)
               \<lparr>actual := of_int (calculate_remaining_points d (sp_id sprint))\<rparr>]"
      using e by (simp add: build_burndown_payload_series)
    moreover have "length ?S - 1 < length ?S" using ne by (cases ?S) simp_all
    ultimately show ?thesis
      using ne by (simp add: last_conv_nth)
  qed
  show ?thesis using A B C1 C2 by blast
qed

theorem build_burndown_payload_actual_witness:
  "distinct (map bs_snapshot_date
     (sprint_snapshots (capture_db 101 two_story_db) (sp_id example_sprint))) \<and>
   sprint_snapshots (capture_db 101 two_story_db) (sp_id example_sprint)
     = [\<lparr>bs_id = 1, bs_sprint_id = 1, bs_snapshot_date = 101, bs_remaining_points = 5\<rparr>] \<and>
   map actual (build_burndown_payload (capture_db 101 two_story_db) example_sprint) = [8, 5, 5]"
proof -
  have snaps: "sprint_snapshots (capture_db 101 two_story_db) (sp_id example_sprint)
     = [\<lparr>bs_id = 1, bs_sprint_id = 1, bs_snapshot_date = 101, bs_remaining_points = 5\<rparr>]"
    by code_simp
  have uniq: "distinct (map bs_snapshot_date
     (sprint_snapshots (capture_db 101 two_story_db) (sp_id example_sprint)))"
    by (simp add: snaps)
  have eval: "build_burndown_payload (capture_db 101 two_story_db) example_sprint =
    [\<lparr>day = ''Day 1'', ideal = 8, actual = 8\<rparr>, \<lparr>day = ''Day 2'', ideal = 4, actual = 5\<rparr>,
     \<lparr>day = ''Day 3'', ideal = 0, actual = 5\<rparr>]"
    by code_simp
  from build_burndown_payload_actual[OF uniq] uniq snaps eval
  show ?thesis by simp
qed

text \<open>
  C3 as stated fails for a snapshot taken before the sprint starts: the capture of day 95
  records 5 remaining points for the sprint that starts on day 100; it is then the most
  recent snapshot whose date is not after the first day, but the first entry shows the 8
  total points.
\<close>

theorem build_burndown_payload_actual_counterexample:
  "sprint_snapshots (capture_db 95 two_story_db) (sp_id example_sprint)
     = [\<lparr>bs_id = 1, bs_sprint_id = 1, bs_snapshot_date = 95, bs_remaining_points = 5\<rparr>] \<and>
   95 \<le> sp_start_date example_sprint + 0 \<and>
   actual (build_burndown_payload (capture_db 95 two_story_db) example_sprint ! 0) = 8 \<and>
   actual (build_burndown_payload (capture_db 95 two_story_db) example_sprint ! 0) \<noteq> 5"
  by code_simp

section \<open>Snapshot capture: theorems\<close>

lemma capture_loop_Cons:
  "capture_loop d t (sprint # rest) rows pending =
     (case find (snapshot_hit (sp_id sprint) t) rows of
        Some snapshot \<Rightarrow>
          capture_loop d t rest
            (update_first (snapshot_hit (sp_id sprint) t)
               (\<lambda>b. b\<lparr>bs_remaining_points := calculate_remaining_points d (sp_id sprint)\<rparr>) rows)
            pending
      | None \<Rightarrow>
          capture_loop d t rest rows
            (pending @ [(sp_id sprint, calculate_remaining_points d (sp_id sprint))]))"
proof -
  have "(\<lambda>b. bs_sprint_id b = sp_id sprint \<and> bs_snapshot_date b = t) = snapshot_hit (sp_id sprint) t"
    by (auto simp: snapshot_hit_def)
  then show ?thesis by (simp add: Let_def)
qed

lemma find_append_list:
  "find P (xs @ ys) = (case find P xs of None \<Rightarrow> find P ys | Some x \<Rightarrow> Some x)"
  by (induction xs) simp_all

lemma find_update_first_same:
  "find P xs = Some b \<Longrightarrow> P (f b) \<Longrightarrow> find P (update_first P f xs) = Some (f b)"
  by (induction xs) (auto split: if_splits)

lemma find_update_first_other:
  "(\<And>x. P x \<Longrightarrow> \<not> Q x \<and> \<not> Q (f x)) \<Longrightarrow> find Q (update_first P f xs) = find Q xs"
  by (induction xs) auto

lemma update_first_id:
  "find P xs = Some b \<Longrightarrow> f b = b \<Longrightarrow> update_first P f xs = xs"
  by (induction xs) (auto split: if_splits)

lemma update_first_map:
  "(\<And>x. g (f x) = g x) \<Longrightarrow> map g (update_first P f xs) = map g xs"
  by (induction xs) auto

lemma insert_snapshots_append:
  "insert_snapshots n t (ps @ qs)
     = insert_snapshots n t ps @ insert_snapshots (n + int (length ps)) t qs"
  by (induction ps arbitrary: n) (auto simp: algebra_simps)

lemma length_insert_snapshots: "length (insert_snapshots n t ps) = length ps"
  by (induction ps arbitrary: n) auto

lemma snapshot_hit_row:
  "snapshot_hit s t \<lparr>bs_id = n, bs_sprint_id = a, bs_snapshot_date = t',
     bs_remaining_points = r\<rparr> \<longleftrightarrow> a = s \<and> t' = t"
  by (simp add: snapshot_hit_def)

lemma find_insert_snapshots_None:
  "find (snapshot_hit s t) (insert_snapshots n t ps) = None \<longleftrightarrow> s \<notin> fst ` set ps"
proof (induction ps arbitrary: n)
  case Nil
  show ?case by simp
next
  case (Cons p ps)
  obtain a r where p: "p = (a, r)" by (cases p)
  show ?case
  proof (cases "a = s")
    case True
    then show ?thesis by (simp add: p snapshot_hit_row)
  next
    case False
    then show ?thesis using Cons[of "n + 1"] by (simp add: p snapshot_hit_row)
  qed
qed

lemma find_insert_snapshots_Some:
  "find (snapshot_hit s t) (insert_snapshots n t ps) = Some b \<Longrightarrow>
     (s, bs_remaining_points b) \<in> set ps"
proof (induction ps arbitrary: n)
  case Nil
  then show ?case by simp
next
  case (Cons p ps)
  obtain a r where p: "p = (a, r)" by (cases p)
  show ?case
  proof (cases "a = s")
    case True
    with Cons.prems show ?thesis by (auto simp add: p snapshot_hit_row)
  next
    case False
    with Cons.prems have "find (snapshot_hit s t) (insert_snapshots (n + 1) t ps) = Some b"
      by (simp add: p snapshot_hit_row)
    from Cons.IH[OF this] show ?thesis by simp
  qed
qed

lemma first_remaining_final:
  assumes "pending_ok d pending"
  shows "first_remaining s t (rows @ insert_snapshots n t pending) (calculate_remaining_points d s)
     \<longleftrightarrow> first_remaining s t rows (calculate_remaining_points d s) \<or>
         (find (snapshot_hit s t) rows = None \<and> s \<in> fst ` set pending)"
proof (cases "find (snapshot_hit s t) rows")
  case None
  show ?thesis
  proof (cases "find (snapshot_hit s t) (insert_snapshots n t pending)")
    case N: None
    with None show ?thesis
      using find_insert_snapshots_None[of s t n pending]
      by (simp add: first_remaining_def find_append_list)
  next
    case (Some b)
    from find_insert_snapshots_Some[OF Some] assms
    have "bs_remaining_points b = calculate_remaining_points d s"
      by (auto simp: pending_ok_def)
    moreover have "s \<in> fst ` set pending"
      using Some find_insert_snapshots_None[of s t n pending] by auto
    ultimately show ?thesis using None Some
      by (simp add: first_remaining_def find_append_list)
  qed
next
  case (Some b)
  then show ?thesis by (simp add: first_remaining_def find_append_list)
qed

lemma snapshot_hit_update [simp]:
  "snapshot_hit s t (b\<lparr>bs_remaining_points := r\<rparr>) = snapshot_hit s t b"
  by (simp add: snapshot_hit_def)

lemma snapshot_key_update [simp]:
  "snapshot_key (b\<lparr>bs_remaining_points := r\<rparr>) = snapshot_key b"
  by (simp add: snapshot_key_def)

lemma find_hit_None_key:
  "find (snapshot_hit s t) rows = None \<longleftrightarrow> (s, t) \<notin> set (map snapshot_key rows)"
  by (induction rows) (auto simp: snapshot_hit_def snapshot_key_def)

lemma capture_step_update:
  fixes d :: db
  assumes hit: "find (snapshot_hit s0 t) rows = Some b"
  defines "rows1 \<equiv> update_first (snapshot_hit s0 t)
             (\<lambda>b. b\<lparr>bs_remaining_points := calculate_remaining_points d s0\<rparr>) rows"
  shows "served d t rows1 pending s0"
    and "s \<noteq> s0 \<Longrightarrow> served d t rows1 pending s = served d t rows pending s"
    and "map snapshot_key rows1 = map snapshot_key rows"
proof -
  have hb: "snapshot_hit s0 t b" using hit by (auto dest: find_Some_iff[THEN iffD1])
  have "find (snapshot_hit s0 t) rows1
      = Some (b\<lparr>bs_remaining_points := calculate_remaining_points d s0\<rparr>)"
    unfolding rows1_def using hit hb by (intro find_update_first_same) simp_all
  then show "served d t rows1 pending s0"
    by (simp add: served_def first_remaining_def)
  show "map snapshot_key rows1 = map snapshot_key rows"
    unfolding rows1_def by (rule update_first_map) simp
  show "served d t rows1 pending s = served d t rows pending s" if "s \<noteq> s0"
  proof -
    have "find (snapshot_hit s t) rows1 = find (snapshot_hit s t) rows"
      unfolding rows1_def using that
      by (intro find_update_first_other) (auto simp: snapshot_hit_def)
    then show ?thesis by (simp add: served_def first_remaining_def)
  qed
qed

lemma capture_loop_invariant:
  assumes "capture_loop d t xs rows pending = (rows', pending')"
    and "pending_ok d pending"
  shows "pending_ok d pending' \<and>
         map snapshot_key rows' = map snapshot_key rows \<and>
         map fst pending' = map fst pending @
            map sp_id (filter (\<lambda>sp. find (snapshot_hit (sp_id sp) t) rows = None) xs) \<and>
         (\<forall>s. s \<in> sp_id ` set xs \<or> served d t rows pending s \<longrightarrow> served d t rows' pending' s)"
  using assms
proof (induction xs arbitrary: rows pending)
  case Nil
  then show ?case by simp
next
  case (Cons sp xs)
  let ?s0 = "sp_id sp"
  let ?r0 = "calculate_remaining_points d ?s0"
  show ?case
  proof (cases "find (snapshot_hit ?s0 t) rows")
    case None
    let ?pending1 = "pending @ [(?s0, ?r0)]"
    have run: "capture_loop d t xs rows ?pending1 = (rows', pending')"
      using Cons.prems(1) unfolding capture_loop_Cons None by simp
    have ok1: "pending_ok d ?pending1"
      using Cons.prems(2) by (simp add: pending_ok_def)
    note IH = Cons.IH[OF run ok1]
    have s0: "served d t rows ?pending1 ?s0"
      using None by (simp add: served_def)
    have mono: "served d t rows pending s \<Longrightarrow> served d t rows ?pending1 s" for s
      by (auto simp: served_def)
    from IH None s0 mono show ?thesis by auto
  next
    case (Some b)
    let ?rows1 = "update_first (snapshot_hit ?s0 t)
             (\<lambda>b. b\<lparr>bs_remaining_points := ?r0\<rparr>) rows"
    have run: "capture_loop d t xs ?rows1 pending = (rows', pending')"
      using Cons.prems(1) unfolding capture_loop_Cons Some by simp
    note IH = Cons.IH[OF run Cons.prems(2)]
    note st1 = capture_step_update(1)[OF Some, where d = d and pending = pending]
    note st2 = capture_step_update(2)[OF Some, where d = d and pending = pending]
    note st3 = capture_step_update(3)[OF Some, where d = d]
    have same: "find (snapshot_hit s t) ?rows1 = None \<longleftrightarrow> find (snapshot_hit s t) rows = None" for s
      by (simp add: find_hit_None_key st3)
    have keep: "served d t rows pending s \<Longrightarrow> served d t ?rows1 pending s" for s
      using st1 st2[of s] by (cases "s = ?s0") simp_all
    from IH Some st1 st3 keep show ?thesis by (auto simp: same)
  qed
qed

lemma capture_loop_fixed:
  "(\<forall>sp \<in> set xs. first_remaining (sp_id sp) t rows (calculate_remaining_points d (sp_id sp)))
     \<Longrightarrow> capture_loop d t xs rows pending = (rows, pending)"
proof (induction xs)
  case Nil
  show ?case by simp
next
  case (Cons sp xs)
  from Cons.prems obtain b where
    b: "find (snapshot_hit (sp_id sp) t) rows = Some b"
       "bs_remaining_points b = calculate_remaining_points d (sp_id sp)"
    by (auto simp: first_remaining_def)
  have "b\<lparr>bs_remaining_points := calculate_remaining_points d (sp_id sp)\<rparr> = b"
    using b(2) by simp
  from update_first_id[OF b(1), of "\<lambda>b. b\<lparr>bs_remaining_points :=
      calculate_remaining_points d (sp_id sp)\<rparr>", OF this]
  have "capture_loop d t (sp # xs) rows pending = capture_loop d t xs rows pending"
    unfolding capture_loop_Cons b(1) by simp
  with Cons show ?case by simp
qed

lemma capture_db_unfold:
  "capture_db t d =
     d\<lparr>burndown_snapshots :=
          fst (capture_loop d t (active_sprints d) (burndown_snapshots d) [])
          @ insert_snapshots (next_snapshot_id d) t
              (snd (capture_loop d t (active_sprints d) (burndown_snapshots d) [])),
       next_snapshot_id := next_snapshot_id d
          + int (length (snd (capture_loop d t (active_sprints d) (burndown_snapshots d) [])))\<rparr>"
  by (simp add: capture_db_def active_sprints_def Let_def split: prod.splits)

lemma capture_db_frame [simp]:
  "sprints (capture_db t d) = sprints d"
  "user_stories (capture_db t d) = user_stories d"
  "tasks (capture_db t d) = tasks d"
  "github_links (capture_db t d) = github_links d"
  by (simp_all add: capture_db_unfold)

lemma calculate_remaining_points_capture [simp]:
  "calculate_remaining_points (capture_db t d) = calculate_remaining_points d"
  by (rule ext) (simp add: calculate_remaining_points_def)

lemma active_sprints_capture [simp]: "active_sprints (capture_db t d) = active_sprints d"
  by (simp add: active_sprints_def)

lemma capture_db_first_remaining:
  assumes "sp \<in> set (active_sprints d)"
  shows "first_remaining (sp_id sp) t (burndown_snapshots (capture_db t d))
           (calculate_remaining_points d (sp_id sp))"
proof -
  obtain rows' pending' where
    run: "capture_loop d t (active_sprints d) (burndown_snapshots d) [] = (rows', pending')"
    by (cases "capture_loop d t (active_sprints d) (burndown_snapshots d) []")
  have ok0: "pending_ok d []" by (simp add: pending_ok_def)
  from capture_loop_invariant[OF run ok0] assms
  have ok: "pending_ok d pending'" and "served d t rows' pending' (sp_id sp)" by auto
  then show ?thesis
    unfolding capture_db_unfold run
    by (simp add: first_remaining_final[OF ok] served_def)
qed

lemma capture_db_idempotent: "capture_db t (capture_db t d) = capture_db t d"
proof -
  let ?d1 = "capture_db t d"
  have "\<forall>sp \<in> set (active_sprints ?d1).
      first_remaining (sp_id sp) t (burndown_snapshots ?d1)
        (calculate_remaining_points ?d1 (sp_id sp))"
    using capture_db_first_remaining[of _ d t] by simp
  from capture_loop_fixed[OF this, of "[]"]
  have "capture_loop ?d1 t (active_sprints ?d1) (burndown_snapshots ?d1) []
      = (burndown_snapshots ?d1, [])" .
  then show ?thesis
    by (subst capture_db_unfold[of t ?d1]) simp
qed

lemma snapshot_key_insert_snapshots:
  "map snapshot_key (insert_snapshots n t ps) = map (\<lambda>p. (fst p, t)) ps"
  by (induction ps arbitrary: n) (auto simp: snapshot_key_def)

lemma capture_db_keys:
  "map snapshot_key (burndown_snapshots (capture_db t d))
     = map snapshot_key (burndown_snapshots d)
       @ map (\<lambda>s. (s, t))
           (map sp_id (filter (\<lambda>sp. find (snapshot_hit (sp_id sp) t) (burndown_snapshots d) = None)
              (active_sprints d)))"
proof -
  obtain rows' pending' where
    run: "capture_loop d t (active_sprints d) (burndown_snapshots d) [] = (rows', pending')"
    by (cases "capture_loop d t (active_sprints d) (burndown_snapshots d) []")
  have ok0: "pending_ok d []" by (simp add: pending_ok_def)
  from capture_loop_invariant[OF run ok0]
  have keys: "map snapshot_key rows' = map snapshot_key (burndown_snapshots d)"
    and pend: "map fst pending' = map sp_id
        (filter (\<lambda>sp. find (snapshot_hit (sp_id sp) t) (burndown_snapshots d) = None)
          (active_sprints d))"
    by auto
  have "map (\<lambda>p. (fst p, t)) pending' = map (\<lambda>s. (s, t)) (map fst pending')"
    by simp
  then show ?thesis
    unfolding capture_db_unfold run
    by (simp add: keys snapshot_key_insert_snapshots pend del: map_map)
qed

lemma capture_db_distinct:
  assumes ids: "distinct (map sp_id (sprints d))"
    and keys: "distinct (map snapshot_key (burndown_snapshots d))"
  shows "distinct (map snapshot_key (burndown_snapshots (capture_db t d)))"
proof -
  let ?new = "filter (\<lambda>sp. find (snapshot_hit (sp_id sp) t) (burndown_snapshots d) = None)
              (active_sprints d)"
  have "distinct (map sp_id (active_sprints d))"
    using ids unfolding active_sprints_def by (rule distinct_map_filter)
  then have "distinct (map sp_id ?new)" by (rule distinct_map_filter)
  then have d2: "distinct (map (\<lambda>s. (s, t)) (map sp_id ?new))"
    by (simp add: distinct_map inj_on_def)
  have disj: "set (map snapshot_key (burndown_snapshots d))
      \<inter> set (map (\<lambda>s. (s, t)) (map sp_id ?new)) = {}"
    by (auto simp: find_hit_None_key)
  show ?thesis unfolding capture_db_keys using keys d2 disj by (simp only: distinct_append)
qed

lemma distinct_key_filter:
  assumes "distinct (map snapshot_key rows)" and "find (snapshot_hit s t) rows = Some b"
  shows "filter (snapshot_hit s t) rows = [b]"
  using assms
proof (induction rows)
  case Nil
  then show ?case by simp
next
  case (Cons a rows)
  show ?case
  proof (cases "snapshot_hit s t a")
    case True
    with Cons.prems have ba: "b = a" by simp
    have "snapshot_key a = (s, t)" using True by (simp add: snapshot_hit_def snapshot_key_def)
    with Cons.prems(1) have "(s, t) \<notin> set (map snapshot_key rows)" by auto
    then have "filter (snapshot_hit s t) rows = []"
      by (auto simp: filter_empty_conv snapshot_hit_def snapshot_key_def image_iff)
    with True ba show ?thesis by simp
  next
    case False
    with Cons show ?thesis by simp
  qed
qed

lemma snapshot_key_eq: "snapshot_key = (\<lambda>b. (bs_sprint_id b, bs_snapshot_date b))"
  by (simp add: fun_eq_iff snapshot_key_def)

lemma snapshot_hit_eq:
  "snapshot_hit s t = (\<lambda>b. bs_sprint_id b = s \<and> bs_snapshot_date b = t)"
  by (simp add: fun_eq_iff snapshot_hit_def)

lemma capture_burndown_snapshots_unfold:
  "capture_burndown_snapshots for_date today p =
     (None, p\<lparr>database := capture_db (case for_date of Some dt \<Rightarrow> dt | None \<Rightarrow> get_today today p)
                              (database p)\<rparr>)"
  by (simp add: capture_burndown_snapshots_def Let_def)

text \<open>
  C6. Snapshot capture is an idempotent upsert. When sprint ids are unique and the table
  holds at most one snapshot per sprint and date, calling the capture twice for the same
  day leaves the process exactly as the first call left it, the table still holds at most
  one row per sprint and date, and for every ACTIVE sprint it holds exactly one row for
  that sprint and day, whose value is the sprint's remaining points.
\<close>

theorem capture_burndown_snapshots_idempotent:
  assumes ids: "distinct (map sp_id (sprints (database p)))"
    and keys: "distinct (map (\<lambda>b. (bs_sprint_id b, bs_snapshot_date b))
                 (burndown_snapshots (database p)))"
  shows "snd (capture_burndown_snapshots for_date today
                (snd (capture_burndown_snapshots for_date today p)))
           = snd (capture_burndown_snapshots for_date today p) \<and>
         distinct (map (\<lambda>b. (bs_sprint_id b, bs_snapshot_date b))
           (burndown_snapshots (database (snd (capture_burndown_snapshots for_date today
              (snd (capture_burndown_snapshots for_date today p))))))) \<and>
         (\<forall>sp \<in> set (sprints (database p)). sp_status sp = SPRINT_ACTIVE \<longrightarrow>
            (\<exists>b. filter (\<lambda>b. bs_sprint_id b = sp_id sp \<and>
                              bs_snapshot_date b
                                = (case for_date of Some dt \<Rightarrow> dt | None \<Rightarrow> get_today today p))
                    (burndown_snapshots (database (snd (capture_burndown_snapshots for_date today
                       (snd (capture_burndown_snapshots for_date today p))))))
                  = [b] \<and>
                 bs_remaining_points b = calculate_remaining_points (database p) (sp_id sp)))"
proof -
  let ?t = "case for_date of Some dt \<Rightarrow> dt | None \<Rightarrow> get_today today p"
  let ?p1 = "snd (capture_burndown_snapshots for_date today p)"
  let ?p2 = "snd (capture_burndown_snapshots for_date today ?p1)"
  have p1: "?p1 = p\<lparr>database := capture_db ?t (database p)\<rparr>"
    by (simp add: capture_burndown_snapshots_unfold)
  have off: "SIMULATION_OFFSET_DAYS (snd (capture_burndown_snapshots fd today p))
      = SIMULATION_OFFSET_DAYS p" for fd
    by (simp add: capture_burndown_snapshots_unfold)
  have t1: "(case for_date of Some dt \<Rightarrow> dt | None \<Rightarrow> get_today today ?p1) = ?t"
    by (simp add: get_today_def off split: option.splits)
  have p2: "?p2 = ?p1"
    by (subst capture_burndown_snapshots_unfold) (simp add: t1, simp add: p1 capture_db_idempotent)
  have dist: "distinct (map snapshot_key (burndown_snapshots (capture_db ?t (database p))))"
    using ids keys by (intro capture_db_distinct) (simp_all add: snapshot_key_eq)
  have one: "\<exists>b. filter (snapshot_hit (sp_id sp) ?t) (burndown_snapshots (capture_db ?t (database p)))
                  = [b] \<and>
                 bs_remaining_points b = calculate_remaining_points (database p) (sp_id sp)"
    if "sp \<in> set (sprints (database p))" "sp_status sp = SPRINT_ACTIVE" for sp
  proof -
    from that have "sp \<in> set (active_sprints (database p))" by (simp add: active_sprints_def)
    from capture_db_first_remaining[OF this, of ?t]
    obtain b where b: "find (snapshot_hit (sp_id sp) ?t)
        (burndown_snapshots (capture_db ?t (database p))) = Some b"
      "bs_remaining_points b = calculate_remaining_points (database p) (sp_id sp)"
      by (auto simp: first_remaining_def)
    from distinct_key_filter[OF dist b(1)] b(2) show ?thesis by blast
  qed
  have db2: "database ?p2 = capture_db ?t (database p)"
    unfolding p2 by (simp add: p1)
  show ?thesis
    unfolding db2 using p2 dist one
    by (simp add: snapshot_key_eq snapshot_hit_eq)
qed

theorem capture_burndown_snapshots_idempotent_witness:
  "distinct (map sp_id (sprints (database example_process))) \<and>
   distinct (map (\<lambda>b. (bs_sprint_id b, bs_snapshot_date b))
     (burndown_snapshots (database example_process))) \<and>
   sp_status example_sprint = SPRINT_ACTIVE \<and>
   burndown_snapshots (database (snd (capture_burndown_snapshots (Some 101) 100
      (snd (capture_burndown_snapshots (Some 101) 100 example_process)))))
     = [\<lparr>bs_id = 1, bs_sprint_id = 1, bs_snapshot_date = 101, bs_remaining_points = 5\<rparr>] \<and>
   snd (capture_burndown_snapshots (Some 101) 100
      (snd (capture_burndown_snapshots (Some 101) 100 example_process)))
     = snd (capture_burndown_snapshots (Some 101) 100 example_process)"
proof -
  have ids: "distinct (map sp_id (sprints (database example_process)))"
    by code_simp
  have keys: "distinct (map (\<lambda>b. (bs_sprint_id b, bs_snapshot_date b))
     (burndown_snapshots (database example_process)))"
    by code_simp
  have act: "sp_status example_sprint = SPRINT_ACTIVE"
    by (simp add: example_sprint_def)
  have rows: "burndown_snapshots (database (snd (capture_burndown_snapshots (Some 101) 100
      (snd (capture_burndown_snapshots (Some 101) 100 example_process)))))
     = [\<lparr>bs_id = 1, bs_sprint_id = 1, bs_snapshot_date = 101, bs_remaining_points = 5\<rparr>]"
    by code_simp
  from capture_burndown_snapshots_idempotent[OF ids keys, of "Some 101" 100] ids keys act rows
  show ?thesis by simp
qed

text \<open>
  C9, as amended. The snapshot capture returns no value (\<open>None\<close>). It leaves, for every
  ACTIVE sprint, a snapshot of the target date holding the sprint's remaining points, and
  the table grows by one row for each ACTIVE sprint that had no snapshot of that date: the
  sprints updated are the ACTIVE sprints, but their count is not returned.
\<close>

theorem capture_burndown_snapshots_result:
  "fst (capture_burndown_snapshots for_date today p) = None \<and>
   (\<forall>sp \<in> set (sprints (database p)). sp_status sp = SPRINT_ACTIVE \<longrightarrow>
      (\<exists>b \<in> set (burndown_snapshots (database (snd (capture_burndown_snapshots for_date today p)))).
         bs_sprint_id b = sp_id sp \<and>
         bs_snapshot_date b = (case for_date of Some dt \<Rightarrow> dt | None \<Rightarrow> get_today today p) \<and>
         bs_remaining_points b = calculate_remaining_points (database p) (sp_id sp))) \<and>
   length (burndown_snapshots (database (snd (capture_burndown_snapshots for_date today p))))
     = length (burndown_snapshots (database p))
       + length (filter (\<lambda>sp. sp_status sp = SPRINT_ACTIVE \<and>
                   \<not> (\<exists>b \<in> set (burndown_snapshots (database p)).
                        bs_sprint_id b = sp_id sp \<and>
                        bs_snapshot_date b
                          = (case for_date of Some dt \<Rightarrow> dt | None \<Rightarrow> get_today today p)))
           (sprints (database p)))"
proof -
  let ?t = "case for_date of Some dt \<Rightarrow> dt | None \<Rightarrow> get_today today p"
  let ?d = "database p"
  have db1: "database (snd (capture_burndown_snapshots for_date today p)) = capture_db ?t ?d"
    by (simp add: capture_burndown_snapshots_unfold)
  have row: "\<exists>b \<in> set (burndown_snapshots (capture_db ?t ?d)).
         bs_sprint_id b = sp_id sp \<and> bs_snapshot_date b = ?t \<and>
         bs_remaining_points b = calculate_remaining_points ?d (sp_id sp)"
    if "sp \<in> set (sprints ?d)" "sp_status sp = SPRINT_ACTIVE" for sp
  proof -
    from that have "sp \<in> set (active_sprints ?d)" by (simp add: active_sprints_def)
    from capture_db_first_remaining[OF this, of ?t]
    obtain b where b: "find (snapshot_hit (sp_id sp) ?t)
        (burndown_snapshots (capture_db ?t ?d)) = Some b"
      "bs_remaining_points b = calculate_remaining_points ?d (sp_id sp)"
      by (auto simp: first_remaining_def)
    from b(1) have "b \<in> set (burndown_snapshots (capture_db ?t ?d))" "snapshot_hit (sp_id sp) ?t b"
      by (auto simp: find_Some_iff in_set_conv_nth)
    with b(2) show ?thesis by (auto simp: snapshot_hit_def)
  qed
  have nohit: "find (snapshot_hit s ?t) (burndown_snapshots ?d) = None \<longleftrightarrow>
      \<not> (\<exists>b \<in> set (burndown_snapshots ?d). bs_sprint_id b = s \<and> bs_snapshot_date b = ?t)" for s
    by (auto simp: find_None_iff snapshot_hit_def)
  have "length (burndown_snapshots (capture_db ?t ?d))
      = length (map snapshot_key (burndown_snapshots (capture_db ?t ?d)))"
    by simp
  also have "\<dots> = length (burndown_snapshots ?d)
      + length (filter (\<lambda>sp. find (snapshot_hit (sp_id sp) ?t) (burndown_snapshots ?d) = None)
          (active_sprints ?d))"
    unfolding capture_db_keys by simp
  also have "filter (\<lambda>sp. find (snapshot_hit (sp_id sp) ?t) (burndown_snapshots ?d) = None)
          (active_sprints ?d)
      = filter (\<lambda>sp. sp_status sp = SPRINT_ACTIVE \<and>
                   \<not> (\<exists>b \<in> set (burndown_snapshots ?d).
                        bs_sprint_id b = sp_id sp \<and> bs_snapshot_date b = ?t))
           (sprints ?d)"
    unfolding active_sprints_def nohit by (simp add: conj_commute)
  finally have len: "length (burndown_snapshots (capture_db ?t ?d))
      = length (burndown_snapshots ?d)
        + length (filter (\<lambda>sp. sp_status sp = SPRINT_ACTIVE \<and>
                   \<not> (\<exists>b \<in> set (burndown_snapshots ?d).
                        bs_sprint_id b = sp_id sp \<and> bs_snapshot_date b = ?t))
           (sprints ?d))" .
  have none: "fst (capture_burndown_snapshots for_date today p) = None"
    by (simp add: capture_burndown_snapshots_unfold)
  show ?thesis unfolding db1 using none row len by blast
qed

theorem capture_burndown_snapshots_result_witness:
  "sp_status example_sprint = SPRINT_ACTIVE \<and>
   fst (capture_burndown_snapshots None 100 example_process) = None \<and>
   burndown_snapshots (database (snd (capture_burndown_snapshots None 100 example_process)))
     = [\<lparr>bs_id = 1, bs_sprint_id = 1, bs_snapshot_date = 100, bs_remaining_points = 5\<rparr>]"
proof -
  have act: "sp_status example_sprint = SPRINT_ACTIVE"
    by (simp add: example_sprint_def)
  have rows: "burndown_snapshots (database (snd (capture_burndown_snapshots None 100 example_process)))
     = [\<lparr>bs_id = 1, bs_sprint_id = 1, bs_snapshot_date = 100, bs_remaining_points = 5\<rparr>]"
    by code_simp
  from capture_burndown_snapshots_result[of None 100 example_process] act rows
  show ?thesis by simp
qed

text \<open>
  C9 as stated fails: with one ACTIVE sprint, whose snapshot the call writes, the call does
  not return the count 1.
\<close>

theorem capture_burndown_snapshots_result_counterexample:
  "length (filter (\<lambda>s. sp_status s = SPRINT_ACTIVE) (sprints (database example_process))) = 1 \<and>
   burndown_snapshots (database (snd (capture_burndown_snapshots None 100 example_process)))
     = [\<lparr>bs_id = 1, bs_sprint_id = 1, bs_snapshot_date = 100, bs_remaining_points = 5\<rparr>] \<and>
   fst (capture_burndown_snapshots None 100 example_process) \<noteq> Some 1"
  by code_simp

end
